theory Spec2Isabelle
  imports Main "HOL-Library.Multiset"
begin

section \<open>Data model of the modal manager (src/index.js)\<close>

text \<open>
  The module keeps a stack of modal ids, a metadata object keyed by id and two flags.
  Everything it touches outside itself is made part of the state: the containers that
  \<^verbatim>\<open>document.getElementById\<close> finds, the focused element, the body's overflow style,
  the calls made to the history API, the custom events dispatched on the document, the
  timers set with \<^verbatim>\<open>setTimeout\<close> and the exceptions that escape to the event loop.

  Names are the source's, without the leading underscores: \<^verbatim>\<open>open\<close> and \<^verbatim>\<open>close\<close> are
  \<open>open_modal\<close> and \<open>close_modal\<close>, \<^verbatim>\<open>__close\<close> and \<^verbatim>\<open>__closeTop\<close> are \<open>close_impl\<close> and
  \<open>closeTop_impl\<close>, and \<^verbatim>\<open>__duration\<close> is \<open>default_duration\<close>.

  The metadata object is a plain object: reading \<^verbatim>\<open>__meta[id]\<close> for an id without an entry
  of its own finds what every object inherits (\<^verbatim>\<open>toString\<close>, \<^verbatim>\<open>constructor\<close>, ...), and that is
  modelled. An id is taken not to be \<^verbatim>\<open>__proto__\<close> itself, the one name whose assignment
  stores no entry.

  The session history is the page's own entry with the entries the manager pushes above it.
  \<^verbatim>\<open>history.back()\<close> does not traverse at once: it queues a task that looks the entry below
  the current one up and queues the traversal proper, which fires \<^verbatim>\<open>popstate\<close> unless that
  entry has become the current one meanwhile; \<^verbatim>\<open>pushState\<close> drops the traversals still
  queued. These tasks wait in the same queue as the timers, with no delay.
\<close>

type_synonym modal_id = string

text \<open>A reference to a DOM element that can hold the focus.\<close>
type_synonym node = string

text \<open>The values a payload can be; numbers are integers here, objects are references.\<close>
datatype jsval = Undefined | Null | JBool bool | JNum int | JStr string | JObj nat


text \<open>The second argument of \<^verbatim>\<open>open\<close>; \<open>None\<close> (or \<open>Undefined\<close>) is a property left out.\<close>
record options =
  opt_focus :: "bool option"
  opt_closable :: "bool option"
  opt_backdropClose :: "bool option"
  opt_data :: jsval
  opt_duration :: "nat option"

definition no_options :: options where
  "no_options = \<lparr>opt_focus = None, opt_closable = None, opt_backdropClose = None,
                 opt_data = Undefined, opt_duration = None\<rparr>"

text \<open>One value of the metadata object \<^verbatim>\<open>__meta\<close>.\<close>
record meta_entry =
  focus :: bool
  closable :: bool
  backdropClose :: bool
  opener :: "node option"
  duration :: nat
  data :: jsval

datatype event_name = ModalOpen | ModalOpened | ModalClose | ModalClosed

text \<open>A dispatched custom event: its name and the \<^verbatim>\<open>detail\<close> object's id and data.\<close>
type_synonym event = "event_name \<times> modal_id \<times> jsval"

text \<open>
  The closure \<^verbatim>\<open>clickHandler\<close> that one call of \<^verbatim>\<open>open\<close> creates. Each call makes a new
  function object, told apart by a serial number; it captures \<^verbatim>\<open>backdropClose\<close>.
\<close>
record handler =
  h_serial :: nat
  h_backdropClose :: bool

text \<open>
  A container element (the backdrop): whether it holds an element of class \<^verbatim>\<open>modal\<close>, what
  that element's autofocus and focusable descendants are, and the properties the manager
  writes: the inline styles, the class \<^verbatim>\<open>open\<close>, the click listeners and the property
  \<^verbatim>\<open>__wabModalClickHandler\<close>.
\<close>
record element =
  has_modal :: bool
  autofocus :: "node option"
  focusables :: "node list"
  z_index :: "nat option"
  transition :: "nat option"
  modal_transition :: "nat option"
  cls_open :: bool
  listeners :: "handler list"
  click_handler :: "handler option"

datatype error = TypeError

text \<open>
  What waits to run later. The two callbacks handed to \<^verbatim>\<open>setTimeout\<close>, with the variables
  they capture: the id, the \<^verbatim>\<open>focus\<close> option, the payload and the modal element (\<open>None\<close>
  when \<^verbatim>\<open>querySelector\<close> found none) for the one set by \<^verbatim>\<open>open\<close>; the id, the opener and the
  payload for the one set by \<^verbatim>\<open>__close\<close>. And the two tasks of a \<^verbatim>\<open>history.back()\<close>: the
  look-up of the entry to go to, and the traversal to the entry at a position.
\<close>
datatype task =
    OpenDone modal_id bool jsval "(node option \<times> node list) option"
  | CloseDone modal_id "node option" jsval
  | Lookup
  | Traverse nat

record state =
  stack :: "modal_id list"
  meta :: "modal_id \<rightharpoonup> meta_entry"
  popped :: bool
  transitioning :: bool
  doc :: "modal_id \<rightharpoonup> element"
  active :: "node option"
  body_hidden :: bool
  hist :: nat
  events :: "event list"
  queue :: "(nat \<times> task) list"
  now :: nat
  fresh :: nat
  uncaught :: "error list"

definition zIndex :: nat where
  "zIndex = 1000"

definition default_duration :: nat where
  "default_duration = 300"

text \<open>The state of a freshly loaded page whose containers are \<open>d\<close>.\<close>
definition init :: "(modal_id \<rightharpoonup> element) \<Rightarrow> state" where
  "init d = \<lparr>stack = [], meta = Map.empty, popped = False, transitioning = False,
             doc = d, active = None, body_hidden = False, hist = 0,
             events = [], queue = [], now = 0, fresh = 0, uncaught = []\<rparr>"

text \<open>A container as the markup gives it, before the manager has touched it.\<close>
definition plain_element :: element where
  "plain_element = \<lparr>has_modal = True, autofocus = None, focusables = [],
                     z_index = None, transition = None, modal_transition = None,
                     cls_open = False, listeners = [], click_handler = None\<rparr>"

section \<open>The platform\<close>

text \<open>\<^verbatim>\<open>dispatch(eventName, modalId, data = null)\<close>: the event is recorded in the log.\<close>
definition dispatch :: "event_name \<Rightarrow> modal_id \<Rightarrow> jsval \<Rightarrow> state \<Rightarrow> state" where
  "dispatch n i d s =
     s\<lparr>events := events s @ [(n, i, if d = Undefined then Null else d)]\<rparr>"

text \<open>
  The delay of a timer is a signed 32-bit integer: the number given is taken modulo
  \<open>2 ^ 32\<close>, and what then reads as negative counts as no delay.
\<close>
definition timer_delay :: "nat \<Rightarrow> nat" where
  "timer_delay d = (let w = d mod 2 ^ 32 in if w < 2 ^ 31 then w else 0)"

text \<open>\<^verbatim>\<open>setTimeout(callback, delay)\<close>.\<close>
definition setTimeout :: "task \<Rightarrow> nat \<Rightarrow> state \<Rightarrow> state" where
  "setTimeout t d s = s\<lparr>queue := queue s @ [(now s + timer_delay d, t)]\<rparr>"

fun is_traversal :: "task \<Rightarrow> bool" where
  "is_traversal Lookup = True"
| "is_traversal (Traverse n) = True"
| "is_traversal (OpenDone i fo da modal) = False"
| "is_traversal (CloseDone i op da) = False"

text \<open>\<^verbatim>\<open>history.pushState(state, "")\<close>: a new entry above the current one.\<close>
definition pushState :: "state \<Rightarrow> state" where
  "pushState s =
     s\<lparr>hist := hist s + 1, queue := filter (\<lambda>(t, c). \<not> is_traversal c) (queue s)\<rparr>"

text \<open>\<^verbatim>\<open>history.back()\<close>.\<close>
definition history_back :: "state \<Rightarrow> state" where
  "history_back s = s\<lparr>queue := queue s @ [(now s, Lookup)]\<rparr>"

text \<open>
  The names every object inherits from \<^verbatim>\<open>Object.prototype\<close>. Each holds a function (or,
  for \<^verbatim>\<open>__proto__\<close>, the prototype itself): truthy, and without any of the properties the
  manager reads.
\<close>
definition inherited_names :: "string list" where
  "inherited_names =
     [''constructor'', ''hasOwnProperty'', ''isPrototypeOf'', ''propertyIsEnumerable'',
      ''toLocaleString'', ''toString'', ''valueOf'', ''__defineGetter__'',
      ''__defineSetter__'', ''__lookupGetter__'', ''__lookupSetter__'', ''__proto__'']"

text \<open>What \<^verbatim>\<open>__meta[id]\<close> evaluates to, \<open>None\<close> standing for \<^verbatim>\<open>undefined\<close>.\<close>
datatype meta_value = Entry meta_entry | Inherited

definition meta_get :: "state \<Rightarrow> modal_id \<Rightarrow> meta_value option" where
  "meta_get s i =
     (case meta s i of
        Some m \<Rightarrow> Some (Entry m)
      | None \<Rightarrow> if i \<in> set inherited_names then Some Inherited else None)"

section \<open>The operations\<close>

text \<open>
  \<^verbatim>\<open>open(id, options = {})\<close>. Writing \<^verbatim>\<open>modal.style\<close> when the container holds no element
  of class \<^verbatim>\<open>modal\<close> throws; what was done before stays done.
\<close>
definition open_modal :: "modal_id \<Rightarrow> options \<Rightarrow> state \<Rightarrow> state" where
  "open_modal i opts s =
     (case doc s i of
        None \<Rightarrow> s
      | Some backdrop \<Rightarrow>
          let s1 = (pushState s)\<lparr>popped := False, transitioning := True\<rparr>;
              fo = (case opt_focus opts of None \<Rightarrow> True | Some b \<Rightarrow> b);
              cl = (case opt_closable opts of None \<Rightarrow> True | Some b \<Rightarrow> b);
              bc = (case opt_backdropClose opts of None \<Rightarrow> True | Some b \<Rightarrow> b);
              da = (if opt_data opts = Undefined then Null else opt_data opts);
              du = (case opt_duration opts of None \<Rightarrow> default_duration | Some d \<Rightarrow> d);
              s2 = s1\<lparr>meta := (meta s1)(i \<mapsto>
                      \<lparr>focus = fo, closable = cl, backdropClose = bc,
                       opener = active s1, duration = du, data = da\<rparr>)\<rparr>;
              s3 = s2\<lparr>stack := stack s2 @ [i]\<rparr>;
              s4 = dispatch ModalOpen i da s3;
              b1 = backdrop\<lparr>z_index := Some (zIndex + length (stack s4))\<rparr>
          in if du \<noteq> default_duration \<and> \<not> has_modal b1
             then s4\<lparr>doc := (doc s4)(i \<mapsto> b1\<lparr>transition := Some du\<rparr>),
                     uncaught := uncaught s4 @ [TypeError]\<rparr>
             else
               let b2 = (if du \<noteq> default_duration
                         then b1\<lparr>transition := Some du, modal_transition := Some du\<rparr>
                         else b1);
                   b3 = b2\<lparr>cls_open := True\<rparr>;
                   h = \<lparr>h_serial = fresh s4, h_backdropClose = bc\<rparr>;
                   b4 = b3\<lparr>listeners := listeners b3 @ [h], click_handler := Some h\<rparr>;
                   s5 = s4\<lparr>doc := (doc s4)(i \<mapsto> b4), body_hidden := True,
                          fresh := fresh s4 + 1\<rparr>
               in setTimeout
                    (OpenDone i fo da
                       (if has_modal b4 then Some (autofocus b4, focusables b4) else None))
                    du s5)"

text \<open>The callback \<^verbatim>\<open>open\<close> sets: it throws at \<^verbatim>\<open>modal.querySelector\<close> when there is no modal.\<close>
definition open_done ::
  "modal_id \<Rightarrow> bool \<Rightarrow> jsval \<Rightarrow> (node option \<times> node list) option \<Rightarrow> state \<Rightarrow> state" where
  "open_done i fo da modal s =
     (let s1 = s\<lparr>transitioning := False\<rparr>
      in if fo
         then (case modal of
                 None \<Rightarrow> s1\<lparr>uncaught := uncaught s1 @ [TypeError]\<rparr>
               | Some (Some a, fs) \<Rightarrow> dispatch ModalOpened i da (s1\<lparr>active := Some a\<rparr>)
               | Some (None, []) \<Rightarrow> dispatch ModalOpened i da s1
               | Some (None, f # fs) \<Rightarrow> dispatch ModalOpened i da (s1\<lparr>active := Some f\<rparr>))
         else dispatch ModalOpened i da s1)"

text \<open>
  \<^verbatim>\<open>__close(id, popstate)\<close>, up to and including its \<^verbatim>\<open>setTimeout\<close>. When \<^verbatim>\<open>__meta[id]\<close> is
  an inherited function, the three variables taken from it are \<^verbatim>\<open>undefined\<close>, and so is
  the delay of the timer, which then is none.
\<close>
definition close_impl :: "modal_id \<Rightarrow> bool \<Rightarrow> state \<Rightarrow> state" where
  "close_impl i popstate s =
     (case doc s i of
        None \<Rightarrow> s
      | Some backdrop \<Rightarrow>
         (case meta_get s i of
            None \<Rightarrow> s
          | Some v \<Rightarrow>
              let op = (case v of Entry m \<Rightarrow> opener m | Inherited \<Rightarrow> None);
                  du = (case v of Entry m \<Rightarrow> duration m | Inherited \<Rightarrow> 0);
                  da = (case v of Entry m \<Rightarrow> data m | Inherited \<Rightarrow> Undefined);
                  s1 = s\<lparr>transitioning := True\<rparr>;
                  s2 = dispatch ModalClose i da s1;
                  b1 = backdrop\<lparr>cls_open := False\<rparr>;
                  s3 = (if length (stack s2) = 0 then s2\<lparr>body_hidden := False\<rparr> else s2);
                  b2 = (case click_handler b1 of
                          None \<Rightarrow> b1
                        | Some h \<Rightarrow> b1\<lparr>listeners := remove1 h (listeners b1),
                                       click_handler := None\<rparr>);
                  s4 = s3\<lparr>doc := (doc s3)(i \<mapsto> b2)\<rparr>;
                  s5 = (if \<not> popstate then history_back s4 else s4)
              in setTimeout (CloseDone i op da) du s5))"

text \<open>The callback \<^verbatim>\<open>__close\<close> sets; \<^verbatim>\<open>indexOf\<close> and \<^verbatim>\<open>splice\<close> drop the first occurrence.\<close>
definition close_done :: "modal_id \<Rightarrow> node option \<Rightarrow> jsval \<Rightarrow> state \<Rightarrow> state" where
  "close_done i op da s =
     (let s1 = s\<lparr>transitioning := False\<rparr>;
          s2 = s1\<lparr>meta := (meta s1)(i := None)\<rparr>;
          s3 = s2\<lparr>stack := remove1 i (stack s2)\<rparr>;
          s4 = (if op \<noteq> None \<and> length (stack s3) = 0 then s3\<lparr>active := op\<rparr> else s3)
      in dispatch ModalClosed i da s4)"

text \<open>\<^verbatim>\<open>close(id)\<close>.\<close>
definition close_modal :: "modal_id \<Rightarrow> state \<Rightarrow> state" where
  "close_modal i s = close_impl i False s"

text \<open>
  \<^verbatim>\<open>__closeTop(popstate)\<close>; \<^verbatim>\<open>__meta[topModalId]?.closable !== false\<close> holds when there is
  no entry, and when what is found is inherited.
\<close>
definition closeTop_impl :: "bool \<Rightarrow> state \<Rightarrow> state" where
  "closeTop_impl popstate s =
     (if length (stack s) > 0
      then let topModalId = last (stack s)
           in if (case meta_get s topModalId of
                    Some (Entry m) \<Rightarrow> closable m \<noteq> False
                  | _ \<Rightarrow> True)
              then close_impl topModalId popstate s
              else s
      else s)"

definition closeTop :: "state \<Rightarrow> state" where
  "closeTop s = closeTop_impl False s"

text \<open>\<^verbatim>\<open>closeAll()\<close>: a copy of the stack, reversed, each id closed in turn.\<close>
definition closeAll :: "state \<Rightarrow> state" where
  "closeAll s = fold close_modal (rev (stack s)) s"


subsection \<open>The listeners\<close>

text \<open>The \<^verbatim>\<open>keydown\<close> listener on the document.\<close>
definition keydown :: "string \<Rightarrow> state \<Rightarrow> state" where
  "keydown k s = (if \<not> transitioning s \<and> k = ''Escape'' then closeTop s else s)"

text \<open>The \<^verbatim>\<open>popstate\<close> listener on the window.\<close>
definition popstate :: "state \<Rightarrow> state" where
  "popstate s =
     (if \<not> popped s \<and> length (stack s) > 0
      then let s1 = closeTop_impl True s
           in s1\<lparr>popped := (length (stack s1) = 0)\<rparr>
      else s)"

text \<open>
  One \<^verbatim>\<open>clickHandler\<close> of the container \<open>i\<close>, called with an event whose target is the
  container itself (\<open>on_backdrop\<close>) or something inside it.
\<close>
definition clickHandler :: "modal_id \<Rightarrow> handler \<Rightarrow> bool \<Rightarrow> state \<Rightarrow> state" where
  "clickHandler i h on_backdrop s =
     (if on_backdrop \<and> h_backdropClose h then close_modal i s else s)"

text \<open>
  A click reaching the container \<open>i\<close>: the listeners attached when the event arrives are
  called in order, except those an earlier one has removed meanwhile.
\<close>
definition click :: "modal_id \<Rightarrow> bool \<Rightarrow> state \<Rightarrow> state" where
  "click i on_backdrop s =
     (case doc s i of
        None \<Rightarrow> s
      | Some backdrop \<Rightarrow>
          fold (\<lambda>h s'. case doc s' i of
                         None \<Rightarrow> s'
                       | Some b \<Rightarrow> if h \<in> set (listeners b)
                                   then clickHandler i h on_backdrop s' else s')
               (listeners backdrop) s)"

subsection \<open>The task queue and runs\<close>

text \<open>
  The look-up goes nowhere from the page's own entry. The traversal fires \<^verbatim>\<open>popstate\<close>
  unless the entry it goes to is the current one.
\<close>
definition run_task :: "task \<Rightarrow> state \<Rightarrow> state" where
  "run_task c s =
     (case c of
        OpenDone i fo da modal \<Rightarrow> open_done i fo da modal s
      | CloseDone i op da \<Rightarrow> close_done i op da s
      | Lookup \<Rightarrow>
          if hist s = 0 then s else s\<lparr>queue := queue s @ [(now s, Traverse (hist s - 1))]\<rparr>
      | Traverse n \<Rightarrow> if n = hist s then s else popstate (s\<lparr>hist := n\<rparr>))"

text \<open>The task due first, the one queued first among those due together.\<close>
fun earliest :: "(nat \<times> task) list \<Rightarrow> (nat \<times> task) option" where
  "earliest [] = None"
| "earliest (x # xs) =
     (case earliest xs of
        None \<Rightarrow> Some x
      | Some y \<Rightarrow> if fst x \<le> fst y then Some x else Some y)"

definition next_due :: "nat \<Rightarrow> (nat \<times> task) list \<Rightarrow> (nat \<times> task) option" where
  "next_due limit q =
     (case earliest q of
        None \<Rightarrow> None
      | Some (t, c) \<Rightarrow> if t \<le> limit then Some (t, c) else None)"

text \<open>A task is worth what it may leave behind in the queue, and one more.\<close>
fun task_weight :: "nat \<times> task \<Rightarrow> nat" where
  "task_weight (t, Lookup) = 3"
| "task_weight (t, Traverse n) = 2"
| "task_weight (t, OpenDone i fo da modal) = 1"
| "task_weight (t, CloseDone i op da) = 1"

definition queue_weight :: "state \<Rightarrow> nat" where
  "queue_weight s = sum_list (map task_weight (queue s))"

text \<open>
  The tasks due by \<open>limit\<close> run one after the other, the clock standing at the time each
  was due. A traversal may set a timer in passing, which runs in its turn when due by then.
\<close>
function drain :: "nat \<Rightarrow> state \<Rightarrow> state" where
  "drain limit s =
     (case next_due limit (queue s) of
        None \<Rightarrow> s
      | Some (t, c) \<Rightarrow>
          drain limit (run_task c (s\<lparr>queue := remove1 (t, c) (queue s), now := max (now s) t\<rparr>)))"
  by pat_completeness auto

text \<open>Time passes by \<open>d\<close> milliseconds.\<close>
definition advance :: "nat \<Rightarrow> state \<Rightarrow> state" where
  "advance d s = (drain (now s + d) s)\<lparr>now := now s + d\<rparr>"

text \<open>
  Everything that can happen to the manager from outside: the calls of its five functions,
  a key pressed, a \<^verbatim>\<open>popstate\<close> event from a gesture of the user, a click on or inside a
  container, and time passing.
\<close>
datatype action =
    Open modal_id options
  | Close modal_id
  | CloseTop
  | CloseAll
  | KeyDown string
  | PopState
  | Click modal_id bool
  | Advance nat

fun step :: "action \<Rightarrow> state \<Rightarrow> state" where
  "step (Open i opts) s = open_modal i opts s"
| "step (Close i) s = close_modal i s"
| "step CloseTop s = closeTop s"
| "step CloseAll s = closeAll s"
| "step (KeyDown k) s = keydown k s"
| "step PopState s = popstate s"
| "step (Click i b) s = click i b s"
| "step (Advance d) s = advance d s"

definition run :: "action list \<Rightarrow> state \<Rightarrow> state" where
  "run acts s = fold step acts s"

section \<open>Predicates on states and runs\<close>


text \<open>Every key of the metadata object is an id in the stack.\<close>
definition meta_in_stack :: "state \<Rightarrow> bool" where
  "meta_in_stack s = (dom (meta s) \<subseteq> set (stack s))"


text \<open>The names of the events dispatched for the id \<open>i\<close>, oldest first.\<close>
definition names_of :: "modal_id \<Rightarrow> event list \<Rightarrow> event_name list" where
  "names_of i evs = map fst (filter (\<lambda>e. fst (snd e) = i) evs)"





text \<open>No container of the page is named like a property every object inherits.\<close>
definition plain_ids :: "state \<Rightarrow> bool" where
  "plain_ids s \<longleftrightarrow> (\<forall>i \<in> set inherited_names. doc s i = None)"

text \<open>Scrolling is suspended, on such a page, with every metadata key in the stack.\<close>
definition hidden_inv :: "state \<Rightarrow> bool" where
  "hidden_inv s \<longleftrightarrow> meta_in_stack s \<and> plain_ids s \<and> body_hidden s"


section \<open>Properties\<close>

lemma run_Nil: "run [] s = s"
  by (simp add: run_def)

lemma run_Cons: "run (a # acts) s = run acts (step a s)"
  by (simp add: run_def)

lemma run_append: "run (xs @ ys) s = run ys (run xs s)"
  by (simp add: run_def)

lemmas prim_defs = open_modal_def close_impl_def open_done_def close_done_def
  dispatch_def setTimeout_def pushState_def history_back_def meta_get_def

subsection \<open>The queue empties\<close>

lemma earliest_in: "earliest q = Some x \<Longrightarrow> x \<in> set q"
  by (induction q arbitrary: x) (auto split: option.splits if_splits)

lemma next_due_in: "next_due limit q = Some x \<Longrightarrow> x \<in> set q \<and> fst x \<le> limit"
  by (auto simp: next_due_def dest: earliest_in split: option.splits if_splits)

lemma queue_open_done: "queue (open_done i fo da m s) = queue s"
  by (simp add: prim_defs Let_def split: option.splits list.splits)

lemma queue_close_done: "queue (close_done i op da s) = queue s"
  by (simp add: prim_defs Let_def)

lemma queue_close_impl:
  "queue (close_impl i p s) =
     (case doc s i of
        None \<Rightarrow> queue s
      | Some b \<Rightarrow>
         (case meta_get s i of
            None \<Rightarrow> queue s
          | Some v \<Rightarrow>
              queue s @ (if p then [] else [(now s, Lookup)]) @
                [(now s + timer_delay (case v of Entry m \<Rightarrow> duration m | Inherited \<Rightarrow> 0),
                  CloseDone i (case v of Entry m \<Rightarrow> opener m | Inherited \<Rightarrow> None)
                    (case v of Entry m \<Rightarrow> data m | Inherited \<Rightarrow> Undefined))]))"
  by (simp add: close_impl_def dispatch_def setTimeout_def history_back_def Let_def
      split: option.splits)

lemma queue_popstate:
  "queue (popstate s) = queue s \<or> (\<exists>t i op da. queue (popstate s) = queue s @ [(t, CloseDone i op da)])"
  by (auto simp: popstate_def closeTop_impl_def Let_def queue_close_impl split: option.splits)

lemma queue_weight_run_task:
  "queue_weight (run_task c s) + 1 \<le> queue_weight s + task_weight (t, c)"
proof (cases c)
  case (Traverse n)
  from queue_popstate [of "s\<lparr>hist := n\<rparr>"] show ?thesis
    by (auto simp: Traverse run_task_def queue_weight_def)
qed (auto simp: run_task_def queue_weight_def queue_open_done queue_close_done)

lemma queue_weight_step:
  assumes "next_due limit (queue s) = Some (t, c)"
  shows "queue_weight (run_task c (s\<lparr>queue := remove1 (t, c) (queue s), now := max (now s) t\<rparr>))
           < queue_weight s"
proof -
  let ?s = "s\<lparr>queue := remove1 (t, c) (queue s), now := max (now s) t\<rparr>"
  from next_due_in [OF assms] have "(t, c) \<in> set (queue s)" by simp
  then have "queue_weight s = task_weight (t, c) + queue_weight ?s"
    by (simp add: queue_weight_def sum_list_map_remove1)
  moreover have "0 < task_weight (t, c)" by (cases c) simp_all
  ultimately show ?thesis
    using queue_weight_run_task [of c ?s t] by simp
qed

termination drain
  by (relation "measure (\<lambda>(limit, s). queue_weight s)") (auto simp: queue_weight_step)

declare drain.simps [simp del]

lemmas model_defs = run_def init_def open_modal_def close_impl_def open_done_def close_done_def
  dispatch_def setTimeout_def pushState_def history_back_def meta_get_def inherited_names_def
  timer_delay_def close_modal_def closeTop_impl_def closeTop_def closeAll_def
  keydown_def popstate_def clickHandler_def click_def run_task_def advance_def drain.simps
  next_due_def no_options_def plain_element_def zIndex_def default_duration_def Let_def

subsection \<open>What each operation does to the stack and the metadata\<close>

lemma meta_open_modal:
  "meta (open_modal i opts s) =
     (case doc s i of
        None \<Rightarrow> meta s
      | Some b \<Rightarrow> (meta s)(i \<mapsto>
          \<lparr>focus = (case opt_focus opts of None \<Rightarrow> True | Some b \<Rightarrow> b),
           closable = (case opt_closable opts of None \<Rightarrow> True | Some b \<Rightarrow> b),
           backdropClose = (case opt_backdropClose opts of None \<Rightarrow> True | Some b \<Rightarrow> b),
           opener = active s,
           duration = (case opt_duration opts of None \<Rightarrow> default_duration | Some d \<Rightarrow> d),
           data = (if opt_data opts = Undefined then Null else opt_data opts)\<rparr>))"
  by (simp add: prim_defs Let_def split: option.splits)

lemma stack_open_modal:
  "stack (open_modal i opts s) = (if doc s i = None then stack s else stack s @ [i])"
  by (simp add: prim_defs Let_def split: option.splits)

lemma meta_close_impl: "meta (close_impl i p s) = meta s"
  by (simp add: prim_defs Let_def split: option.splits)

lemma stack_close_impl: "stack (close_impl i p s) = stack s"
  by (simp add: prim_defs Let_def split: option.splits)

lemma meta_open_done: "meta (open_done i fo da m s) = meta s"
  by (simp add: prim_defs Let_def split: option.splits list.splits)

lemma stack_open_done: "stack (open_done i fo da m s) = stack s"
  by (simp add: prim_defs Let_def split: option.splits list.splits)

lemma meta_close_done: "meta (close_done i op da s) = (meta s)(i := None)"
  by (simp add: prim_defs Let_def)

lemma stack_close_done: "stack (close_done i op da s) = remove1 i (stack s)"
  by (simp add: prim_defs Let_def)

lemma open_modal_missing: "doc s i = None \<Longrightarrow> open_modal i opts s = s"
  by (simp add: open_modal_def)

lemma close_impl_missing: "doc s i = None \<or> meta_get s i = None \<Longrightarrow> close_impl i p s = s"
  by (auto simp: close_impl_def split: option.splits)

lemma filter_remove1_neq: "filter (\<lambda>y. y \<noteq> x) (remove1 x xs) = filter (\<lambda>y. y \<noteq> x) xs"
  by (induction xs) auto

subsection \<open>Lifting a property of the four state changes to every action\<close>

text \<open>
  Every action is built from \<^const>\<open>open_modal\<close>, \<^const>\<open>close_impl\<close> and the two timer
  callbacks, so a property kept by these (and blind to the bookkeeping of queue, clock,
  history position and \<^const>\<open>popped\<close>) is kept by every step.
\<close>

lemma fold_preserves:
  assumes "\<And>x s. P s \<Longrightarrow> P (f x s)" and "P s"
  shows "P (fold f xs s)"
  using assms(2) by (induction xs arbitrary: s) (auto intro: assms(1))

lemma closeTop_impl_preserves:
  assumes "\<And>i p s. P s \<Longrightarrow> P (close_impl i p s)" and "P s"
  shows "P (closeTop_impl p s)"
  using assms by (simp add: closeTop_impl_def Let_def)

lemma closeAll_preserves:
  assumes "\<And>i p s. P s \<Longrightarrow> P (close_impl i p s)" and "P s"
  shows "P (closeAll s)"
  unfolding closeAll_def
  by (rule fold_preserves) (simp_all add: close_modal_def assms)

lemma click_preserves:
  assumes "\<And>i p s. P s \<Longrightarrow> P (close_impl i p s)" and "P s"
  shows "P (click i b s)"
proof (cases "doc s i")
  case None
  then show ?thesis using assms(2) by (simp add: click_def)
next
  case (Some e)
  have "P (fold (\<lambda>h s'. case doc s' i of None \<Rightarrow> s'
        | Some b' \<Rightarrow> if h \<in> set (listeners b') then clickHandler i h b s' else s') (listeners e) s)"
    by (rule fold_preserves)
       (auto simp: clickHandler_def close_modal_def assms split: option.splits)
  with Some show ?thesis by (simp add: click_def)
qed

lemma popstate_preserves:
  assumes cl: "\<And>i p s. P s \<Longrightarrow> P (close_impl i p s)"
    and pp: "\<And>s b. P s \<Longrightarrow> P (s\<lparr>popped := b\<rparr>)"
    and "P s"
  shows "P (popstate s)"
  using closeTop_impl_preserves [of P, OF cl assms(3)] assms(3)
  by (simp add: popstate_def Let_def pp)

text \<open>The same for a property that looks at the queue: what a task does when it runs.\<close>

lemma drain_preserves:
  assumes fire: "\<And>t c s. P s \<Longrightarrow> (t, c) \<in> set (queue s) \<Longrightarrow>
      P (run_task c (s\<lparr>queue := remove1 (t, c) (queue s), now := max (now s) t\<rparr>))"
    and "P s"
  shows "P (drain limit s)"
  using assms(2)
proof (induction limit s rule: drain.induct)
  case (1 limit s)
  show ?case
  proof (cases "next_due limit (queue s)")
    case None
    then show ?thesis using "1.prems" by (simp add: drain.simps)
  next
    case (Some x)
    obtain t c where x: "x = (t, c)" by (cases x)
    from Some x next_due_in [of limit "queue s" x] have "(t, c) \<in> set (queue s)" by simp
    from fire [OF "1.prems" this] "1.IH" [OF Some [unfolded x] refl] Some x
    show ?thesis by (simp add: drain.simps)
  qed
qed

lemma step_preserves_queue:
  assumes cl: "\<And>i p s. P s \<Longrightarrow> P (close_impl i p s)"
    and fire: "\<And>t c s. P s \<Longrightarrow> (t, c) \<in> set (queue s) \<Longrightarrow>
      P (run_task c (s\<lparr>queue := remove1 (t, c) (queue s), now := max (now s) t\<rparr>))"
    and nw: "\<And>s n. P s \<Longrightarrow> P (s\<lparr>now := n\<rparr>)"
    and pp: "\<And>s b. P s \<Longrightarrow> P (s\<lparr>popped := b\<rparr>)"
    and op: "\<And>i opts. a = Open i opts \<Longrightarrow> P (open_modal i opts s)"
    and "P s"
  shows "P (step a s)"
proof (cases a)
  case (Open i opts)
  then show ?thesis using op by simp
next
  case (Close i)
  then show ?thesis using cl assms(6) by (simp add: close_modal_def)
next
  case CloseTop
  then show ?thesis
    using closeTop_impl_preserves [of P, OF cl assms(6)] by (simp add: closeTop_def)
next
  case CloseAll
  then show ?thesis using closeAll_preserves [of P, OF cl assms(6)] by simp
next
  case (KeyDown k)
  then show ?thesis
    using closeTop_impl_preserves [of P, OF cl assms(6)] assms(6)
    by (simp add: keydown_def closeTop_def)
next
  case PopState
  then show ?thesis using popstate_preserves [of P, OF cl pp assms(6)] by simp
next
  case (Click i b)
  then show ?thesis using click_preserves [of P, OF cl assms(6)] by simp
next
  case (Advance d)
  have "P (drain (now s + d) s)"
    by (rule drain_preserves [of P, OF fire assms(6)])
  then show ?thesis using Advance by (simp add: advance_def nw)
qed

lemma run_task_preserves:
  assumes cl: "\<And>i p s. P s \<Longrightarrow> P (close_impl i p s)"
    and od: "\<And>i fo da m s. P s \<Longrightarrow> P (open_done i fo da m s)"
    and cd: "\<And>i op da s. P s \<Longrightarrow> P (close_done i op da s)"
    and qu: "\<And>s q. P s \<Longrightarrow> P (s\<lparr>queue := q\<rparr>)"
    and pp: "\<And>s b. P s \<Longrightarrow> P (s\<lparr>popped := b\<rparr>)"
    and hs: "\<And>s n. P s \<Longrightarrow> P (s\<lparr>hist := n\<rparr>)"
    and "P s"
  shows "P (run_task c s)"
proof (cases c)
  case (Traverse n)
  have "P (popstate (s\<lparr>hist := n\<rparr>))"
    by (rule popstate_preserves [of P]) (simp_all add: cl pp hs assms(7))
  then show ?thesis using Traverse assms(7) by (simp add: run_task_def)
qed (use assms(7) in \<open>simp_all add: run_task_def od cd qu\<close>)

lemma step_preserves:
  assumes cl: "\<And>i p s. P s \<Longrightarrow> P (close_impl i p s)"
    and od: "\<And>i fo da m s. P s \<Longrightarrow> P (open_done i fo da m s)"
    and cd: "\<And>i op da s. P s \<Longrightarrow> P (close_done i op da s)"
    and qu: "\<And>s q. P s \<Longrightarrow> P (s\<lparr>queue := q\<rparr>)"
    and nw: "\<And>s n. P s \<Longrightarrow> P (s\<lparr>now := n\<rparr>)"
    and pp: "\<And>s b. P s \<Longrightarrow> P (s\<lparr>popped := b\<rparr>)"
    and hs: "\<And>s n. P s \<Longrightarrow> P (s\<lparr>hist := n\<rparr>)"
    and op: "\<And>i opts. a = Open i opts \<Longrightarrow> P (open_modal i opts s)"
    and "P s"
  shows "P (step a s)"
proof -
  have fire: "P (run_task c (s\<lparr>queue := remove1 (t, c) (queue s), now := max (now s) t\<rparr>))"
    if "P s" for t c s
    by (rule run_task_preserves [of P]) (simp_all add: cl od cd qu pp hs nw that)
  show ?thesis
    by (rule step_preserves_queue [of P]) (simp_all add: cl fire nw pp op assms(9))
qed

subsection \<open>The stack and the metadata table\<close>

lemma meta_in_stack_step: "meta_in_stack s \<Longrightarrow> meta_in_stack (step a s)"
proof (rule step_preserves [where P = meta_in_stack])
  show "meta_in_stack (close_done i op da s)" if "meta_in_stack s" for i op da s
    using that by (force simp: meta_in_stack_def meta_close_done stack_close_done dom_def)
qed (auto simp: meta_in_stack_def meta_close_impl stack_close_impl meta_open_done
      stack_open_done meta_open_modal stack_open_modal split: option.splits)











subsection \<open>Opening\<close>

text \<open>
  C2 (as amended). \<^verbatim>\<open>open(id)\<close> of an id that has a container appends the id to the
  stack, so the id occurs once more than before: exactly once when it was not in the stack
  (and a stack without duplicates stays so), and once more than before when it already was.
\<close>
theorem open_appends_once:
  "doc s i \<noteq> None \<Longrightarrow>
     stack (open_modal i opts s) = stack s @ [i] \<and>
     count_list (stack (open_modal i opts s)) i = count_list (stack s) i + 1 \<and>
     (i \<notin> set (stack s) \<longrightarrow> count_list (stack (open_modal i opts s)) i = 1 \<and>
        (distinct (stack s) \<longrightarrow> distinct (stack (open_modal i opts s))))"
  by (simp add: stack_open_modal count_list_0_iff)

theorem open_appends_once_witness:
  "doc (init [''m1'' \<mapsto> plain_element]) ''m1'' \<noteq> None \<and>
   ''m1'' \<notin> set (stack (init [''m1'' \<mapsto> plain_element])) \<and>
   distinct (stack (init [''m1'' \<mapsto> plain_element])) \<and>
   stack (open_modal ''m1'' no_options (init [''m1'' \<mapsto> plain_element])) = [''m1''] \<and>
   count_list (stack (open_modal ''m1'' no_options (init [''m1'' \<mapsto> plain_element]))) ''m1'' = 1 \<and>
   distinct (stack (open_modal ''m1'' no_options (init [''m1'' \<mapsto> plain_element])))"
proof -
  have h: "doc (init [''m1'' \<mapsto> plain_element]) ''m1'' \<noteq> None" by (simp add: init_def)
  have e: "stack (init [''m1'' \<mapsto> plain_element]) = []" by (simp add: init_def)
  from open_appends_once [OF h, of no_options] h e show ?thesis by simp
qed

text \<open>
  C2 as stated fails: \<^verbatim>\<open>open("m1")\<close> on a stack that already holds \<^verbatim>\<open>m1\<close> leaves it there
  twice.
\<close>
theorem duplicate_open_duplicates_entry:
  "count_list (stack (open_modal ''m1'' no_options (open_modal ''m1'' no_options
      (init [''m1'' \<mapsto> plain_element])))) ''m1'' = 2 \<and>
   \<not> distinct (stack (open_modal ''m1'' no_options (open_modal ''m1'' no_options
      (init [''m1'' \<mapsto> plain_element]))))"
  by (simp add: model_defs)

subsection \<open>Background scrolling\<close>

lemma body_hidden_close_impl:
  "meta_in_stack s \<Longrightarrow> plain_ids s \<Longrightarrow> body_hidden (close_impl i p s) = body_hidden s"
  by (auto simp: meta_in_stack_def plain_ids_def prim_defs Let_def split: option.splits)

lemma plain_ids_doc: "(\<And>i. doc s' i = None \<longleftrightarrow> doc s i = None) \<Longrightarrow> plain_ids s' = plain_ids s"
  by (simp add: plain_ids_def)

lemma plain_ids_open_modal: "plain_ids (open_modal i opts s) = plain_ids s"
  by (rule plain_ids_doc) (auto simp: prim_defs Let_def split: option.splits)

lemma plain_ids_close_impl: "plain_ids (close_impl i p s) = plain_ids s"
  by (rule plain_ids_doc) (auto simp: prim_defs Let_def split: option.splits)

lemma plain_ids_open_done: "plain_ids (open_done i fo da m s) = plain_ids s"
  by (rule plain_ids_doc) (auto simp: prim_defs Let_def split: option.splits list.splits)

lemma plain_ids_close_done: "plain_ids (close_done i op da s) = plain_ids s"
  by (rule plain_ids_doc) (auto simp: prim_defs Let_def split: option.splits)

lemma meta_in_stack_close_done: "meta_in_stack s \<Longrightarrow> meta_in_stack (close_done i op da s)"
  by (force simp: meta_in_stack_def meta_close_done stack_close_done dom_def)

lemma body_hidden_close_done: "body_hidden (close_done i op da s) = body_hidden s"
  by (simp add: prim_defs Let_def)

lemma body_hidden_open_done: "body_hidden (open_done i fo da m s) = body_hidden s"
  by (simp add: prim_defs Let_def split: option.splits list.splits)

lemma body_hidden_open_modal: "body_hidden s \<Longrightarrow> body_hidden (open_modal i opts s)"
  by (simp add: prim_defs Let_def split: option.splits)

lemma hidden_inv_step: "hidden_inv s \<Longrightarrow> hidden_inv (step a s)"
proof (rule step_preserves [where P = hidden_inv])
  show "hidden_inv (close_impl i p s)" if "hidden_inv s" for i p s
    using that body_hidden_close_impl [of s i p]
    by (simp add: hidden_inv_def meta_in_stack_def meta_close_impl stack_close_impl
        plain_ids_close_impl)
  show "hidden_inv (close_done i op da s)" if "hidden_inv s" for i op da s
    using that
    by (simp add: hidden_inv_def meta_in_stack_close_done body_hidden_close_done
        plain_ids_close_done)
  show "hidden_inv (open_done i fo da m s)" if "hidden_inv s" for i fo da m s
    using that
    by (simp add: hidden_inv_def meta_in_stack_def meta_open_done stack_open_done
        body_hidden_open_done plain_ids_open_done)
  show "hidden_inv (open_modal i opts s)" if "a = Open i opts" "hidden_inv s" for i opts
    using that(2) meta_in_stack_step [of s "Open i opts"]
    by (simp add: hidden_inv_def body_hidden_open_modal plain_ids_open_modal)
qed (auto simp: hidden_inv_def meta_in_stack_def plain_ids_def)

lemma hidden_inv_run: "hidden_inv s \<Longrightarrow> hidden_inv (run acts s)"
  by (induction acts arbitrary: s) (simp_all add: run_Nil run_Cons hidden_inv_step)

lemma scroll_never_restored:
  "meta_in_stack s \<Longrightarrow> plain_ids s \<Longrightarrow> body_hidden s \<Longrightarrow> body_hidden (run acts s)"
  using hidden_inv_run [of s acts] by (simp add: hidden_inv_def)


text \<open>
  C3 at its failing input: \<^verbatim>\<open>open("m1")\<close>, 300 ms, \<^verbatim>\<open>close("m1")\<close>, 300 ms. The stack is
  empty again and the body's overflow is still hidden: \<^verbatim>\<open>__close\<close> tests the stack's length
  before its timer has removed the id.
\<close>
theorem last_close_keeps_scroll_suspended:
  "stack (run [Open ''m1'' no_options, Advance 300, Close ''m1'', Advance 300]
      (init [''m1'' \<mapsto> plain_element])) = [] \<and>
   body_hidden (run [Open ''m1'' no_options, Advance 300, Close ''m1'', Advance 300]
      (init [''m1'' \<mapsto> plain_element]))"
  by (simp add: model_defs)

subsection \<open>Clicks on the backdrop\<close>

lemma click_inside: "click i False s = s"
proof (cases "doc s i")
  case None
  then show ?thesis by (simp add: click_def)
next
  case (Some e)
  have "fold (\<lambda>h s'. case doc s' i of None \<Rightarrow> s'
        | Some b \<Rightarrow> if h \<in> set (listeners b) then clickHandler i h False s' else s') hs s = s" for hs
    by (induction hs) (auto simp: clickHandler_def split: option.splits)
  with Some show ?thesis by (simp add: click_def)
qed

lemma click_no_listeners: "doc s i = Some e \<Longrightarrow> listeners e = [] \<Longrightarrow> click i b s = s"
  by (simp add: click_def)

lemma click_one_listener:
  "doc s i = Some e \<Longrightarrow> listeners e = [h] \<Longrightarrow>
     click i b s = (if b \<and> h_backdropClose h then close_modal i s else s)"
  by (simp add: click_def clickHandler_def)

lemma doc_open_modal:
  assumes "doc s i = Some e" and "has_modal e"
  shows "\<exists>e'. doc (open_modal i opts s) i = Some e' \<and> has_modal e' \<and>
           listeners e' = listeners e @ [\<lparr>h_serial = fresh s,
              h_backdropClose = (case opt_backdropClose opts of None \<Rightarrow> True | Some b \<Rightarrow> b)\<rparr>] \<and>
           click_handler e' = Some \<lparr>h_serial = fresh s,
              h_backdropClose = (case opt_backdropClose opts of None \<Rightarrow> True | Some b \<Rightarrow> b)\<rparr>"
  using assms by (simp add: prim_defs Let_def)

lemma doc_close_impl:
  assumes "doc s i = Some e" and "meta_get s i \<noteq> None"
  shows "\<exists>e'. doc (close_impl i p s) i = Some e' \<and>
           listeners e' = (case click_handler e of None \<Rightarrow> listeners e
                            | Some h \<Rightarrow> remove1 h (listeners e)) \<and>
           click_handler e' = None"
  using assms by (auto simp: prim_defs Let_def split: option.splits if_splits)

lemma meta_get_own: "meta s i \<noteq> None \<Longrightarrow> meta_get s i \<noteq> None"
  by (auto simp: meta_get_def)

text \<open>
  C9 (as amended). Let \<^verbatim>\<open>open(id, options)\<close> be called for a container that holds a modal
  element and has no click listener attached, and let \<open>s1\<close> be any later state in which the
  container is as that call left it and the id still has its metadata entry. Then a click
  on the container itself closes the modal exactly when its \<^verbatim>\<open>backdropClose\<close> option is
  true; a click inside a container never closes anything; and \<^verbatim>\<open>close(id)\<close> detaches the
  listener, so that no later click on the container does anything.
\<close>
theorem backdrop_click:
  assumes "doc s i = Some e" and "listeners e = []" and "has_modal e"
    and "doc s1 i = doc (open_modal i opts s) i" and "meta s1 i \<noteq> None"
  shows "map_option backdropClose (meta (open_modal i opts s) i) =
           Some (case opt_backdropClose opts of None \<Rightarrow> True | Some b \<Rightarrow> b) \<and>
         click i True s1 =
           (if (case opt_backdropClose opts of None \<Rightarrow> True | Some b \<Rightarrow> b)
            then close_modal i s1 else s1) \<and>
         click j False s' = s' \<and>
         map_option listeners (doc (close_modal i s1) i) = Some [] \<and>
         click i b (close_modal i s1) = close_modal i s1"
proof -
  let ?bc = "case opt_backdropClose opts of None \<Rightarrow> True | Some b \<Rightarrow> b"
  let ?h = "\<lparr>h_serial = fresh s, h_backdropClose = ?bc\<rparr>"
  from doc_open_modal [OF assms(1,3), of opts] assms(2,4)
  obtain e' where e': "doc s1 i = Some e'" "listeners e' = [?h]" "click_handler e' = Some ?h"
    by auto
  have a: "click i True s1 = (if ?bc then close_modal i s1 else s1)"
    using click_one_listener [OF e'(1,2), of True] by simp
  have b: "map_option backdropClose (meta (open_modal i opts s) i) = Some ?bc"
    using assms(1) by (simp add: meta_open_modal)
  from doc_close_impl [OF e'(1) meta_get_own [OF assms(5)], of False] e'(2,3)
  obtain e'' where e'': "doc (close_modal i s1) i = Some e''" "listeners e'' = []"
    by (auto simp: close_modal_def)
  have c: "map_option listeners (doc (close_modal i s1) i) = Some []"
    using e'' by simp
  have d: "click i b (close_modal i s1) = close_modal i s1"
    by (rule click_no_listeners [OF e''])
  from a b c d click_inside [of j s'] show ?thesis by simp
qed

theorem backdrop_click_witness:
  "doc (init [''m1'' \<mapsto> plain_element]) ''m1'' = Some plain_element \<and>
   listeners plain_element = [] \<and> has_modal plain_element \<and>
   doc (run [Open ''m1'' no_options, Advance 300] (init [''m1'' \<mapsto> plain_element])) ''m1'' =
     doc (open_modal ''m1'' no_options (init [''m1'' \<mapsto> plain_element])) ''m1'' \<and>
   meta (run [Open ''m1'' no_options, Advance 300] (init [''m1'' \<mapsto> plain_element])) ''m1'' \<noteq> None \<and>
   click ''m1'' True (run [Open ''m1'' no_options, Advance 300] (init [''m1'' \<mapsto> plain_element])) =
     close_modal ''m1'' (run [Open ''m1'' no_options, Advance 300] (init [''m1'' \<mapsto> plain_element])) \<and>
   click ''m1'' True (close_modal ''m1''
       (run [Open ''m1'' no_options, Advance 300] (init [''m1'' \<mapsto> plain_element]))) =
     close_modal ''m1'' (run [Open ''m1'' no_options, Advance 300] (init [''m1'' \<mapsto> plain_element]))"
proof -
  let ?s = "init [''m1'' \<mapsto> plain_element]"
  let ?s1 = "run [Open ''m1'' no_options, Advance 300] ?s"
  have h1: "doc ?s ''m1'' = Some plain_element" by (simp add: init_def)
  have h2: "listeners plain_element = []" and h3: "has_modal plain_element"
    by (simp_all add: plain_element_def)
  have h4: "doc ?s1 ''m1'' = doc (open_modal ''m1'' no_options ?s) ''m1''"
    by (simp add: model_defs)
  have h5: "meta ?s1 ''m1'' \<noteq> None" by (simp add: model_defs)
  have bc: "(case opt_backdropClose no_options of None \<Rightarrow> True | Some b \<Rightarrow> b)"
    by (simp add: no_options_def)
  note t = backdrop_click [OF h1 h2 h3 h4 h5, of "''m1''" ?s True]
  from t bc have a: "click ''m1'' True ?s1 = close_modal ''m1'' ?s1" by simp
  from t have b: "click ''m1'' True (close_modal ''m1'' ?s1) = close_modal ''m1'' ?s1" by blast
  from h1 h2 h3 h4 h5 a b show ?thesis by blast
qed

text \<open>
  C9 as stated fails when an id is opened twice: the first call's listener stays attached.
  It closes the modal on a backdrop click although the option now stored is false, and it
  is still attached after \<^verbatim>\<open>close\<close> has completed.
\<close>
theorem duplicate_open_leaves_listener:
  "map_option backdropClose (meta (run [Open ''m1'' no_options,
        Open ''m1'' (no_options\<lparr>opt_backdropClose := Some False\<rparr>)]
      (init [''m1'' \<mapsto> plain_element])) ''m1'') = Some False \<and>
   names_of ''m1'' (events (click ''m1'' True (run [Open ''m1'' no_options,
        Open ''m1'' (no_options\<lparr>opt_backdropClose := Some False\<rparr>)]
      (init [''m1'' \<mapsto> plain_element])))) = [ModalOpen, ModalOpen, ModalClose] \<and>
   map_option listeners (doc (run [Open ''m1'' no_options, Open ''m1'' no_options,
        Close ''m1'', Advance 300] (init [''m1'' \<mapsto> plain_element])) ''m1'') =
     Some [\<lparr>h_serial = 0, h_backdropClose = True\<rparr>]"
  by (simp add: model_defs names_of_def)

subsection \<open>Missing targets\<close>

lemma close_modal_missing:
  "doc s i = None \<or> (meta s i = None \<and> i \<notin> set inherited_names) \<Longrightarrow> close_modal i s = s"
  by (auto simp: close_modal_def close_impl_def meta_get_def split: option.splits)

text \<open>
  C7 at its failing input: a page with a container whose id is \<^verbatim>\<open>toString\<close>, and
  \<^verbatim>\<open>close("toString")\<close> as the first call. The metadata table is a plain object, so
  \<^verbatim>\<open>__meta["toString"]\<close> is the method every object inherits and the guard of \<^verbatim>\<open>__close\<close>
  lets the call through: the transition flag is set and the close event is fired by the
  call itself, and the closed event by its timer. For every other id without a
  container or without a metadata entry the call changes nothing
  (lemmas \<open>open_modal_missing\<close> and \<open>close_modal_missing\<close>).
\<close>
theorem close_of_unopened_inherited_name:
  "meta (init [''toString'' \<mapsto> plain_element]) ''toString'' = None \<and>
   transitioning (close_modal ''toString'' (init [''toString'' \<mapsto> plain_element])) \<and>
   events (close_modal ''toString'' (init [''toString'' \<mapsto> plain_element])) =
     [(ModalClose, ''toString'', Null)] \<and>
   events (run [Close ''toString'', Advance 1] (init [''toString'' \<mapsto> plain_element])) =
     [(ModalClose, ''toString'', Null), (ModalClosed, ''toString'', Null)]"
  by (simp add: model_defs)

subsection \<open>What a call leaves alone\<close>

text \<open>
  C10 at its failing input: \<^verbatim>\<open>open("m1")\<close>, \<^verbatim>\<open>open("m2")\<close>, 300 ms, \<^verbatim>\<open>close("m1")\<close>,
  300 ms. The call \<^verbatim>\<open>close("m1")\<close> goes one step back in the session history; the popstate
  event that answers it finds \<^verbatim>\<open>__popped\<close> false and closes the topmost modal, which is
  \<^verbatim>\<open>m2\<close>. So the close of \<^verbatim>\<open>m1\<close> ends with the metadata entry of \<^verbatim>\<open>m2\<close> deleted and
  \<^verbatim>\<open>m2\<close> removed from the stack.
\<close>
theorem close_of_lower_modal_closes_top:
  "stack (run [Open ''m1'' no_options, Open ''m2'' no_options, Advance 300]
      (init [''m1'' \<mapsto> plain_element, ''m2'' \<mapsto> plain_element])) = [''m1'', ''m2''] \<and>
   meta (run [Open ''m1'' no_options, Open ''m2'' no_options, Advance 300]
      (init [''m1'' \<mapsto> plain_element, ''m2'' \<mapsto> plain_element])) ''m2'' \<noteq> None \<and>
   stack (run [Open ''m1'' no_options, Open ''m2'' no_options, Advance 300, Close ''m1'', Advance 300]
      (init [''m1'' \<mapsto> plain_element, ''m2'' \<mapsto> plain_element])) = [] \<and>
   meta (run [Open ''m1'' no_options, Open ''m2'' no_options, Advance 300, Close ''m1'', Advance 300]
      (init [''m1'' \<mapsto> plain_element, ''m2'' \<mapsto> plain_element])) ''m2'' = None \<and>
   names_of ''m2'' (events (run [Open ''m1'' no_options, Open ''m2'' no_options, Advance 300,
        Close ''m1'', Advance 300]
      (init [''m1'' \<mapsto> plain_element, ''m2'' \<mapsto> plain_element]))) =
     [ModalOpen, ModalOpened, ModalClose, ModalClosed]"
  by (simp add: model_defs names_of_def)

subsection \<open>The payload\<close>












subsection \<open>Closing the topmost modal\<close>



lemma names_of_Nil: "names_of i [] = []"
  by (simp add: names_of_def)















text \<open>
  What the \<^verbatim>\<open>popstate\<close> listener does when an event reaches it: with \<^verbatim>\<open>__popped\<close> false and
  a stack that is not empty it closes the topmost modal, whoever called \<^verbatim>\<open>history.back()\<close>.
\<close>
lemma popstate_reenters_close:
  assumes "\<not> popped s" and "stack s \<noteq> []"
    and "\<not> (\<exists>m. meta s (last (stack s)) = Some m \<and> \<not> closable m)"
  shows "popstate s = (close_impl (last (stack s)) True s)\<lparr>popped := False\<rparr>"
  using assms
  by (auto simp: popstate_def closeTop_impl_def Let_def stack_close_impl meta_get_def
      split: option.splits meta_value.splits)




text \<open>
  When the close has completed before the \<^verbatim>\<open>popstate\<close> event arrives (here with a duration of
  0 ms), the listener finds the next modal on top and closes it as well.
\<close>
lemma late_popstate_closes_next:
  "stack (run [Open ''m1'' no_options, Open ''m2'' (no_options\<lparr>opt_duration := Some 0\<rparr>),
        Advance 300, KeyDown ''Escape'', Advance 300]
      (init [''m1'' \<mapsto> plain_element, ''m2'' \<mapsto> plain_element])) = []"
  by (simp add: model_defs)

end
